theory Spec2Isabelle
  imports Complex_Main
begin

section \<open>Subtitle burn-in: timecodes, active cue, text layout, burn job\<close>

text \<open>
  A shallow embedding of \<^verbatim>\<open>src/utils/srtParser.ts\<close> and
  \<^verbatim>\<open>src/utils/videoProcessor.ts\<close>.

  Conventions of the model.
  \<^item> A finite JavaScript Number is an exact rational (\<^typ>\<open>rat\<close>): the rounding of
    IEEE doubles is not modelled. The values a double can hold besides the finite ones
    (\<open>NaN\<close>, the two infinities) are constructors of the type \<open>number\<close> below and
    appear wherever the code can produce them. The sign of zero is not modelled.
  \<^item> A JavaScript string is a \<^typ>\<open>string\<close>, a character standing for a code unit
    below 256; the separators the code splits on (space, line feed, colon, comma, full
    stop) are single characters.
  \<^item> \<^verbatim>\<open>ctx.measureText(s).width\<close> under the font that
    \<^verbatim>\<open>drawSubtitleOnCanvas\<close> has set is a parameter
    \<open>measureText :: string \<Rightarrow> rat\<close>.
\<close>

subsection \<open>Strings\<close>

definition SPACE :: char where "SPACE = CHR '' ''"
definition LF :: char where "LF = CHR 0x0A"

text \<open>
  \<^verbatim>\<open>s.split(sep)\<close> with a one-character separator: the pieces between the
  occurrences of \<open>sep\<close>. The result is never empty (\<^verbatim>\<open>"".split(" ")\<close> is
  \<^verbatim>\<open>[""]\<close>), so the last branch of the \<open>case\<close> is never taken
  (lemma \<open>str_split_not_Nil\<close>).
\<close>

fun str_split :: "char \<Rightarrow> string \<Rightarrow> string list" where
  "str_split sep [] = [[]]"
| "str_split sep (c # cs) =
     (if c = sep then [] # str_split sep cs
      else (case str_split sep cs of
              w # ws \<Rightarrow> (c # w) # ws
            | [] \<Rightarrow> [[c]]))"

text \<open>\<^verbatim>\<open>words.join(sep)\<close>; it is used to state properties of lines only.\<close>

fun str_join :: "char \<Rightarrow> string list \<Rightarrow> string" where
  "str_join sep [] = []"
| "str_join sep [w] = w"
| "str_join sep (w # v # ws) = w @ sep # str_join sep (v # ws)"

text \<open>
  \<^verbatim>\<open>s.replace(a, b)\<close> with one-character strings \<open>a\<close> and \<open>b\<close>: only the
  first occurrence is replaced.
\<close>

fun replace_first :: "char \<Rightarrow> char \<Rightarrow> string \<Rightarrow> string" where
  "replace_first a b [] = []"
| "replace_first a b (c # cs) = (if c = a then b # cs else c # replace_first a b cs)"

subsection \<open>Numbers\<close>

datatype number = Num rat | NaN | PosInf | NegInf

text \<open>
  The arithmetic of the code on these values. An infinity times zero, the difference of
  two infinities and zero divided by zero are \<open>NaN\<close>; a finite non-zero value divided
  by zero is an infinity of the sign of the dividend.
\<close>

fun js_add :: "number \<Rightarrow> number \<Rightarrow> number" where
  "js_add (Num a) (Num b) = Num (a + b)"
| "js_add NaN _ = NaN"
| "js_add _ NaN = NaN"
| "js_add PosInf NegInf = NaN"
| "js_add NegInf PosInf = NaN"
| "js_add PosInf _ = PosInf"
| "js_add _ PosInf = PosInf"
| "js_add NegInf _ = NegInf"
| "js_add _ NegInf = NegInf"

definition inf_of_sign :: "rat \<Rightarrow> number" where
  "inf_of_sign s = (if s = 0 then NaN else if 0 < s then PosInf else NegInf)"

fun js_mul :: "number \<Rightarrow> number \<Rightarrow> number" where
  "js_mul (Num a) (Num b) = Num (a * b)"
| "js_mul NaN _ = NaN"
| "js_mul _ NaN = NaN"
| "js_mul PosInf (Num b) = inf_of_sign b"
| "js_mul (Num a) PosInf = inf_of_sign a"
| "js_mul NegInf (Num b) = inf_of_sign (- b)"
| "js_mul (Num a) NegInf = inf_of_sign (- a)"
| "js_mul PosInf PosInf = PosInf"
| "js_mul NegInf NegInf = PosInf"
| "js_mul PosInf NegInf = NegInf"
| "js_mul NegInf PosInf = NegInf"

fun js_div :: "number \<Rightarrow> number \<Rightarrow> number" where
  "js_div (Num a) (Num b) = (if b = 0 then inf_of_sign a else Num (a / b))"
| "js_div NaN _ = NaN"
| "js_div _ NaN = NaN"
| "js_div (Num a) _ = Num 0"
| "js_div PosInf (Num b) = (if 0 \<le> b then PosInf else NegInf)"
| "js_div NegInf (Num b) = (if 0 \<le> b then NegInf else PosInf)"
| "js_div _ _ = NaN"

text \<open>
  \<^verbatim>\<open>Math.round\<close> rounds to the nearest integer, a half upwards;
  \<^verbatim>\<open>Math.min\<close> and \<^verbatim>\<open>Math.max\<close> return \<open>NaN\<close> as soon as one
  argument is \<open>NaN\<close>.
\<close>

fun Math_round :: "number \<Rightarrow> number" where
  "Math_round (Num a) = Num (of_int \<lfloor>a + 1 / 2\<rfloor>)"
| "Math_round v = v"

fun Math_min :: "number \<Rightarrow> number \<Rightarrow> number" where
  "Math_min NaN _ = NaN"
| "Math_min _ NaN = NaN"
| "Math_min NegInf _ = NegInf"
| "Math_min _ NegInf = NegInf"
| "Math_min PosInf v = v"
| "Math_min v PosInf = v"
| "Math_min (Num a) (Num b) = Num (min a b)"

fun Math_max :: "number \<Rightarrow> number \<Rightarrow> number" where
  "Math_max NaN _ = NaN"
| "Math_max _ NaN = NaN"
| "Math_max PosInf _ = PosInf"
| "Math_max _ PosInf = PosInf"
| "Math_max NegInf v = v"
| "Math_max v NegInf = v"
| "Math_max (Num a) (Num b) = Num (max a b)"

text \<open>
  The remainder \<^verbatim>\<open>x % y\<close> of finite numbers with \<open>y \<noteq> 0\<close>: the quotient is
  truncated towards zero, so the result has the sign of \<open>x\<close>. The code uses it with
  the divisors 3600, 60 and 1.
\<close>

definition js_rem :: "rat \<Rightarrow> rat \<Rightarrow> rat" where
  "js_rem x y = x - y * of_int (let q = x / y in if q < 0 then \<lceil>q\<rceil> else \<lfloor>q\<rfloor>)"

subsection \<open>Timecodes\<close>

text \<open>
  \<^verbatim>\<open>parseInt(s, 10)\<close>: leading white space is skipped, a sign is read, then the
  longest run of decimal digits; without a digit the result is \<open>NaN\<close>. A character
  stands for a code unit below 256, where the white space of JavaScript is the ASCII
  white space and the no-break space 160. The value of the digits is kept exact: the
  code rounds it to a double above \<open>2\<^sup>5\<^sup>3\<close> and returns an infinity beyond the
  range of a double (from about 309 digits). Whether the result is \<open>NaN\<close> does not
  depend on that.
\<close>

definition isDigit :: "char \<Rightarrow> bool" where
  "isDigit c \<longleftrightarrow> 48 \<le> (of_char c :: nat) \<and> (of_char c :: nat) \<le> 57"

definition isWhiteSpace :: "char \<Rightarrow> bool" where
  "isWhiteSpace c \<longleftrightarrow> (of_char c :: nat) \<in> {9, 10, 11, 12, 13, 32, 160}"

definition digitValue :: "char \<Rightarrow> nat" where
  "digitValue c = of_char c - 48"

definition digitsValue :: "string \<Rightarrow> nat" where
  "digitsValue ds = foldl (\<lambda>acc c. acc * 10 + digitValue c) 0 ds"

definition parseInt :: "string \<Rightarrow> number" where
  "parseInt s =
     (let s1 = dropWhile isWhiteSpace s;
          (sign, s2) = (case s1 of
                          c # r \<Rightarrow> if c = CHR ''-'' then (- 1, r)
                                   else if c = CHR ''+'' then (1, r) else (1, s1)
                        | [] \<Rightarrow> (1, s1));
          ds = takeWhile isDigit s2
      in if ds = [] then NaN else Num (sign * of_nat (digitsValue ds)))"

text \<open>
  \<^verbatim>\<open>secondsParts[1] || '0'\<close>: a missing or empty fraction field reads as
  \<^verbatim>\<open>'0'\<close>.
\<close>

definition msField :: "string list \<Rightarrow> string" where
  "msField secondsParts =
     (if 1 < length secondsParts \<and> secondsParts ! 1 \<noteq> [] then secondsParts ! 1 else ''0'')"

text \<open>
  \<^verbatim>\<open>parseSRTTime\<close>. The test \<^verbatim>\<open>!timeString\<close> holds of the empty
  string. The four variables start at 0 and are assigned in the branch for three parts or
  in the branch for two parts.
\<close>

definition parseSRTTime :: "string \<Rightarrow> number" where
  "parseSRTTime timeString =
     (if timeString = [] then Num 0
      else
        let normalizedTime = replace_first (CHR '','') (CHR ''.'') timeString;
            parts = str_split (CHR '':'') normalizedTime;
            (hours, minutes, seconds, milliseconds) =
              (if length parts = 3 then
                 let secondsParts = str_split (CHR ''.'') (parts ! 2)
                 in (parseInt (parts ! 0), parseInt (parts ! 1),
                     parseInt (secondsParts ! 0), parseInt (msField secondsParts))
               else if length parts = 2 then
                 let secondsParts = str_split (CHR ''.'') (parts ! 1)
                 in (Num 0, parseInt (parts ! 0),
                     parseInt (secondsParts ! 0), parseInt (msField secondsParts))
               else (Num 0, Num 0, Num 0, Num 0))
        in js_add (js_add (js_add (js_mul hours (Num 3600)) (js_mul minutes (Num 60))) seconds)
             (js_div milliseconds (Num 1000)))"

text \<open>The colon-separated parts that \<open>parseSRTTime\<close> looks at.\<close>

definition timeParts :: "string \<Rightarrow> string list" where
  "timeParts timeString = str_split (CHR '':'') (replace_first (CHR '','') (CHR ''.'') timeString)"

text \<open>
  \<^verbatim>\<open>num.toString()\<close> of an integer: its decimal digits, with a minus sign when
  negative. (JavaScript prints digits this way below \<open>10\<^sup>2\<^sup>1\<close>; the components
  that \<open>formatSRTTime\<close> prints stay below that for every duration of a video.)
\<close>

fun digits_of :: "nat \<Rightarrow> string" where
  "digits_of n =
     (if n < 10 then [char_of (48 + n)]
      else digits_of (n div 10) @ [char_of (48 + n mod 10)])"

declare digits_of.simps [simp del]

definition toString :: "int \<Rightarrow> string" where
  "toString n = (if n < 0 then CHR ''-'' # digits_of (nat (- n)) else digits_of (nat n))"

text \<open>
  \<^verbatim>\<open>s.padStart(targetLength, c)\<close> and the local function
  \<^verbatim>\<open>pad\<close> of \<^verbatim>\<open>formatSRTTime\<close>.
\<close>

definition padStart :: "nat \<Rightarrow> char \<Rightarrow> string \<Rightarrow> string" where
  "padStart targetLength c s = replicate (targetLength - length s) c @ s"

definition pad :: "int \<Rightarrow> nat \<Rightarrow> string" where
  "pad num targetLength = padStart targetLength (CHR ''0'') (toString num)"

text \<open>
  \<^verbatim>\<open>formatSRTTime\<close> on a finite number. \<^verbatim>\<open>Math.floor\<close> is \<open>\<lfloor>_\<rfloor>\<close>
  and \<^verbatim>\<open>Math.round(v)\<close> is \<open>\<lfloor>v + 1 / 2\<rfloor>\<close>.
\<close>

definition formatSRTTime :: "rat \<Rightarrow> string" where
  "formatSRTTime totalSeconds =
     (let hours = \<lfloor>totalSeconds / 3600\<rfloor>;
          minutes = \<lfloor>js_rem totalSeconds 3600 / 60\<rfloor>;
          seconds = \<lfloor>js_rem totalSeconds 60\<rfloor>;
          milliseconds = \<lfloor>js_rem totalSeconds 1 * 1000 + 1 / 2\<rfloor>
      in pad hours 2 @ '':'' @ pad minutes 2 @ '':'' @ pad seconds 2 @ '','' @ pad milliseconds 3)"

subsection \<open>Cues and the active cue\<close>

text \<open>
  The interface \<^verbatim>\<open>SubtitleCue\<close>; its fields \<^verbatim>\<open>id\<close> and
  \<^verbatim>\<open>text\<close> are \<open>cue_id\<close> and \<open>cue_text\<close> here.
\<close>

record SubtitleCue =
  cue_id :: string
  startTime :: rat
  endTime :: rat
  cue_text :: string

text \<open>
  \<^verbatim>\<open>cues.find(c => currentTime >= c.startTime && currentTime <= c.endTime)\<close>
  in \<^verbatim>\<open>burnSubtitles\<close>; \<^verbatim>\<open>undefined\<close> is \<open>None\<close>.
\<close>

definition isActive :: "rat \<Rightarrow> SubtitleCue \<Rightarrow> bool" where
  "isActive currentTime c \<longleftrightarrow> currentTime \<ge> startTime c \<and> currentTime \<le> endTime c"

definition activeCue :: "SubtitleCue list \<Rightarrow> rat \<Rightarrow> SubtitleCue option" where
  "activeCue cues currentTime = find (isActive currentTime) cues"

text \<open>Three cues: the second lies inside the first, the third is out of order.\<close>

definition cueA :: SubtitleCue where
  "cueA = \<lparr>cue_id = ''a'', startTime = 2, endTime = 6, cue_text = ''first''\<rparr>"
definition cueB :: SubtitleCue where
  "cueB = \<lparr>cue_id = ''b'', startTime = 3, endTime = 4, cue_text = ''inner''\<rparr>"
definition cueC :: SubtitleCue where
  "cueC = \<lparr>cue_id = ''c'', startTime = 0, endTime = 1, cue_text = ''earlier''\<rparr>"

subsection \<open>Progress\<close>

text \<open>
  \<^verbatim>\<open>Math.min(100, Math.round((currentTime / video.duration) * 100))\<close>, the value
  passed to \<^verbatim>\<open>onProgress\<close> for each frame.
\<close>

definition progress :: "number \<Rightarrow> number \<Rightarrow> number" where
  "progress currentTime duration =
     Math_min (Num 100) (Math_round (js_mul (js_div currentTime duration) (Num 100)))"

text \<open>
  The progress value in the words of the specification:
  \<open>clamp(round(queryTime / totalDuration \<times> 100), 0, 100)\<close>.
\<close>

definition clamp :: "number \<Rightarrow> number \<Rightarrow> number \<Rightarrow> number" where
  "clamp v lo hi = Math_max lo (Math_min hi v)"

definition progressPercent :: "number \<Rightarrow> number \<Rightarrow> number" where
  "progressPercent queryTime totalDuration =
     clamp (Math_round (js_mul (js_div queryTime totalDuration) (Num 100))) (Num 0) (Num 100)"

subsection \<open>Word wrap\<close>

text \<open>
  The inner loop of \<^verbatim>\<open>wrapText\<close> over \<^verbatim>\<open>words[1..]\<close>; its state is
  the pair of \<^verbatim>\<open>lines\<close> and \<^verbatim>\<open>currentLine\<close>.
\<close>

fun wrapWords :: "(string \<Rightarrow> rat) \<Rightarrow> rat \<Rightarrow> string list \<Rightarrow> string list \<times> string
    \<Rightarrow> string list \<times> string" where
  "wrapWords measureText maxWidth [] (lines, currentLine) = (lines, currentLine)"
| "wrapWords measureText maxWidth (word # rest) (lines, currentLine) =
     (if measureText (currentLine @ SPACE # word) < maxWidth
      then wrapWords measureText maxWidth rest (lines, currentLine @ SPACE # word)
      else wrapWords measureText maxWidth rest (lines @ [currentLine], word))"

text \<open>
  One turn of the outer loop: a paragraph, and the final \<^verbatim>\<open>lines.push\<close>.
  \<^verbatim>\<open>words[0]\<close> exists, since \<open>str_split\<close> never returns the empty list.
\<close>

definition wrapParagraph ::
    "(string \<Rightarrow> rat) \<Rightarrow> rat \<Rightarrow> string list \<Rightarrow> string \<Rightarrow> string list" where
  "wrapParagraph measureText maxWidth lines paragraph =
     (let words = str_split SPACE paragraph;
          (lines', currentLine) = wrapWords measureText maxWidth (tl words) (lines, hd words)
      in lines' @ [currentLine])"

definition wrapText :: "(string \<Rightarrow> rat) \<Rightarrow> string \<Rightarrow> rat \<Rightarrow> string list" where
  "wrapText measureText txt maxWidth =
     foldl (wrapParagraph measureText maxWidth) [] (str_split LF txt)"

text \<open>The lines that one paragraph contributes, and the lines of a loop state.\<close>

definition paragraphLines :: "(string \<Rightarrow> rat) \<Rightarrow> rat \<Rightarrow> string \<Rightarrow> string list" where
  "paragraphLines measureText maxWidth paragraph = wrapParagraph measureText maxWidth [] paragraph"

definition flush :: "string list \<times> string \<Rightarrow> string list" where
  "flush st = fst st @ [snd st]"

text \<open>
  A line fits when each of its prefixes of two or more words measures less than the
  bound; a list of lines is forced when the first word of each next line did not fit on
  the line before it.
\<close>

definition fits :: "(string \<Rightarrow> rat) \<Rightarrow> rat \<Rightarrow> string \<Rightarrow> bool" where
  "fits m mw line \<longleftrightarrow>
     (\<forall>k. 1 < k \<and> k \<le> length (str_split SPACE line) \<longrightarrow>
        m (str_join SPACE (take k (str_split SPACE line))) < mw)"

fun forced :: "(string \<Rightarrow> rat) \<Rightarrow> rat \<Rightarrow> string list \<Rightarrow> bool" where
  "forced m mw (l # l' # ls) \<longleftrightarrow>
     \<not> m (l @ SPACE # hd (str_split SPACE l')) < mw \<and> forced m mw (l' # ls)"
| "forced m mw ls \<longleftrightarrow> True"

text \<open>A measure for examples: one unit for each character.\<close>

definition len_measure :: "string \<Rightarrow> rat" where
  "len_measure s = of_nat (length s)"

subsection \<open>Drawing a subtitle\<close>

text \<open>The interface \<^verbatim>\<open>SubtitleStyle\<close> and the style that the application starts with.\<close>

record SubtitleStyle =
  fontSize :: rat
  color :: string
  backgroundColor :: string
  fontFamily :: string
  textShadow :: string
  position :: rat
  opacity :: rat

definition DEFAULT_STYLE :: SubtitleStyle where
  "DEFAULT_STYLE = \<lparr>fontSize = 24, color = ''#ffffff'', backgroundColor = ''rgba(0,0,0,0.5)'',
     fontFamily = ''Inter, sans-serif'', textShadow = ''2px 2px 2px rgba(0,0,0,0.5)'',
     position = 10, opacity = 1\<rparr>"

text \<open>
  The calls on the canvas context that the model records: the rectangle of
  \<^verbatim>\<open>fillRect\<close> with the fill style in force, the text and position of
  \<^verbatim>\<open>fillText\<close>, the target rectangle of \<^verbatim>\<open>drawImage\<close>.
\<close>

record rect =
  rectX :: rat
  rectY :: rat
  rectWidth :: rat
  rectHeight :: rat

datatype canvas_call =
    DrawImage rat rat rat rat
  | FillRect string rect
  | FillText string rat rat

fun isFillRect :: "canvas_call \<Rightarrow> bool" where
  "isFillRect (FillRect fillStyle r) = True"
| "isFillRect (FillText line x y) = False"
| "isFillRect (DrawImage x y w h) = False"

text \<open>
  The loop \<^verbatim>\<open>lines.forEach\<close> that measures the widest line, starting from 0.
\<close>

definition widestLine :: "(string \<Rightarrow> rat) \<Rightarrow> string list \<Rightarrow> rat" where
  "widestLine measureText lines =
     foldl (\<lambda>maxLineWidth line.
              if measureText line > maxLineWidth then measureText line else maxLineWidth)
       0 lines"

text \<open>
  The block \<^emph>\<open>Background Box Calculation\<close> of \<^verbatim>\<open>drawSubtitleOnCanvas\<close>: the
  arguments of its \<^verbatim>\<open>fillRect\<close>. The local variable \<^verbatim>\<open>fontSize\<close> of the
  code (the font size of the style times the scale) is \<open>effectiveFontSize\<close> here.
\<close>

definition backgroundBox ::
    "(string \<Rightarrow> rat) \<Rightarrow> string list \<Rightarrow> rat \<Rightarrow> rat \<Rightarrow> rat \<Rightarrow> rat \<Rightarrow> rect" where
  "backgroundBox measureText lines effectiveFontSize lineHeight x y =
     (let maxLineWidth = widestLine measureText lines;
          paddingX = effectiveFontSize * (6 / 10);
          paddingY = effectiveFontSize * (3 / 10);
          boxWidth = maxLineWidth + (paddingX * 2);
          boxHeight = (of_nat (length lines) * lineHeight) + (paddingY * 2);
          boxX = x - (boxWidth / 2);
          boxBottom = y + (effectiveFontSize * (2 / 10));
          boxTop = boxBottom - boxHeight
      in \<lparr>rectX = boxX, rectY = boxTop, rectWidth = boxWidth, rectHeight = boxHeight\<rparr>)"

text \<open>
  \<^verbatim>\<open>drawSubtitleOnCanvas\<close>: the box, unless the background colour is
  \<^verbatim>\<open>'transparent'\<close>, then the lines from the last one upwards. The font, the
  shadow and stroke settings and the \<^verbatim>\<open>strokeText\<close> calls are not modelled.
\<close>

definition drawSubtitleOnCanvas ::
    "(string \<Rightarrow> rat) \<Rightarrow> string \<Rightarrow> SubtitleStyle \<Rightarrow> rat \<Rightarrow> rat \<Rightarrow> canvas_call list" where
  "drawSubtitleOnCanvas measureText txt style width height =
     (let scale = height / 600;
          effectiveFontSize = fontSize style * scale;
          x = width / 2;
          y = height * (1 - position style / 100);
          maxWidth = width * (8 / 10);
          lineHeight = effectiveFontSize * (125 / 100);
          lines = wrapText measureText txt maxWidth
      in (if backgroundColor style \<noteq> ''transparent''
          then [FillRect (backgroundColor style)
                  (backgroundBox measureText lines effectiveFontSize lineHeight x y)]
          else [])
         @ map (\<lambda>(index, line). FillText line x (y - of_nat index * lineHeight))
             (enumerate 0 (rev lines)))"

subsection \<open>The burn job\<close>

text \<open>
  \<^verbatim>\<open>burnSubtitles\<close> reacts to events of the video element, of the recorder, of the
  animation frame scheduler and of a timer. The model is a state machine: the state holds
  the variables that the handlers share, and \<open>step\<close> runs the handler of one event.
  What the video element shows when a handler reads it (\<open>videoState\<close>) comes with the
  event; \<open>duration\<close> may be infinite.
\<close>

record videoState =
  paused :: bool
  ended :: bool
  currentTime :: rat
  duration :: number

text \<open>
  The events: \<^verbatim>\<open>loadedmetadata\<close> (with the size of the video, whether
  \<^verbatim>\<open>MediaRecorder.isTypeSupported\<close> accepts VP9 and MP4, and the video as the first
  \<^verbatim>\<open>draw()\<close> sees it), the rejection of \<^verbatim>\<open>video.play()\<close>, an animation
  frame, \<^verbatim>\<open>ended\<close>, the timer of 100 ms, \<^verbatim>\<open>dataavailable\<close> with the size
  of the data, the recorder's \<^verbatim>\<open>stop\<close>, and \<^verbatim>\<open>error\<close> of the video.
\<close>

datatype event =
    LoadedMetadata rat rat bool bool videoState
  | PlayRejected string
  | AnimationFrame videoState
  | VideoEnded
  | TimerFired
  | DataAvailable nat
  | RecorderStopped
  | VideoError

fun isLoadedMetadata :: "event \<Rightarrow> bool" where
  "isLoadedMetadata (LoadedMetadata videoWidth videoHeight vp9 mp4 video) = True"
| "isLoadedMetadata e = False"

text \<open>
  The state of a job. \<open>recorder\<close> is the variable of that name (\<open>None\<close> is
  \<^verbatim>\<open>null\<close>) with the state of the recorder it holds; \<open>handlers\<close> says that the
  handlers of the video are installed; \<open>frameRequests\<close> and \<open>timers\<close> count the
  callbacks that are scheduled; \<open>surfaced\<close> is what the promise has delivered to the
  caller; \<open>frames\<close> are the canvas calls of each frame drawn and \<open>reported\<close> the
  arguments of \<^verbatim>\<open>onProgress\<close>.
\<close>

datatype recorderState = Recording | Inactive

datatype outcome = Resolved "nat list" string | Rejected string

record job =
  handlers :: bool
  canvasWidth :: rat
  canvasHeight :: rat
  recorder :: "recorderState option"
  mimeType :: string
  chunks :: "nat list"
  playCalled :: bool
  frameRequests :: nat
  timers :: nat
  stopPending :: bool
  surfaced :: "outcome list"
  frames :: "canvas_call list list"
  reported :: "number list"

text \<open>
  \<^verbatim>\<open>resolve\<close> and \<^verbatim>\<open>reject\<close>: a promise settles once, later calls have
  no effect.
\<close>

definition settle :: "outcome \<Rightarrow> job \<Rightarrow> job" where
  "settle out s = (if surfaced s = [] then s\<lparr>surfaced := [out]\<rparr> else s)"

text \<open>
  The body of \<^verbatim>\<open>burnSubtitles\<close> up to the installation of the handlers; without a
  canvas context it rejects and returns. A new canvas is 300 by 150.
\<close>

definition burnSubtitles :: "bool \<Rightarrow> job" where
  "burnSubtitles ctxAvailable =
     (let s = \<lparr>handlers = False, canvasWidth = 300, canvasHeight = 150, recorder = None,
                mimeType = [], chunks = [], playCalled = False, frameRequests = 0, timers = 0,
                stopPending = False, surfaced = [], frames = [], reported = []\<rparr>
      in if \<not> ctxAvailable then settle (Rejected ''Could not get canvas context'') s
         else s\<lparr>handlers := True\<rparr>)"

text \<open>The function \<^verbatim>\<open>draw\<close>, called for each frame.\<close>

definition draw ::
    "SubtitleCue list \<Rightarrow> SubtitleStyle \<Rightarrow> (string \<Rightarrow> rat) \<Rightarrow> videoState \<Rightarrow> job \<Rightarrow> job" where
  "draw cues style measureText video s =
     (if paused video \<or> ended video then
        (if \<not> ended video then s\<lparr>frameRequests := frameRequests s + 1\<rparr> else s)
      else
        let image = DrawImage 0 0 (canvasWidth s) (canvasHeight s);
            subtitle = (case activeCue cues (currentTime video) of
                          Some c \<Rightarrow> drawSubtitleOnCanvas measureText (cue_text c) style
                                      (canvasWidth s) (canvasHeight s)
                        | None \<Rightarrow> []);
            s1 = s\<lparr>frames := frames s @ [image # subtitle],
                   reported := reported s @ [progress (Num (currentTime video)) (duration video)]\<rparr>
        in if \<not> ended video then s1\<lparr>frameRequests := frameRequests s1 + 1\<rparr> else s1)"

text \<open>
  The handlers. A handler that is not installed, a callback that is not scheduled and an
  event of a recorder that does not exist leave the state as it is. The construction of
  the recorder is taken to succeed.
\<close>

fun step ::
    "SubtitleCue list \<Rightarrow> SubtitleStyle \<Rightarrow> (string \<Rightarrow> rat) \<Rightarrow> job \<Rightarrow> event \<Rightarrow> job" where
  "step cues style measureText s (LoadedMetadata videoWidth videoHeight vp9 mp4 video) =
     (if handlers s then
        draw cues style measureText video
          (s\<lparr>canvasWidth := videoWidth, canvasHeight := videoHeight,
             mimeType := (if vp9 then ''video/webm; codecs=vp9''
                          else if mp4 then ''video/mp4'' else ''video/webm''),
             recorder := Some Recording, chunks := [], playCalled := True\<rparr>)
      else s)"
| "step cues style measureText s (PlayRejected msg) =
     (if playCalled s then settle (Rejected msg) s else s)"
| "step cues style measureText s (AnimationFrame video) =
     (if 0 < frameRequests s
      then draw cues style measureText video (s\<lparr>frameRequests := frameRequests s - 1\<rparr>)
      else s)"
| "step cues style measureText s VideoEnded =
     (if handlers s then s\<lparr>timers := timers s + 1\<rparr> else s)"
| "step cues style measureText s TimerFired =
     (if 0 < timers s then
        let s1 = s\<lparr>timers := timers s - 1\<rparr>
        in if recorder s1 = Some Recording
           then s1\<lparr>recorder := Some Inactive, stopPending := True\<rparr>
           else s1
      else s)"
| "step cues style measureText s (DataAvailable n) =
     (if recorder s \<noteq> None \<and> 0 < n then s\<lparr>chunks := chunks s @ [n]\<rparr> else s)"
| "step cues style measureText s RecorderStopped =
     (if stopPending s
      then settle (Resolved (chunks s) (mimeType s)) (s\<lparr>stopPending := False\<rparr>)
      else s)"
| "step cues style measureText s VideoError =
     (if handlers s then settle (Rejected ''Video playback error during processing'') s else s)"

definition run ::
    "SubtitleCue list \<Rightarrow> SubtitleStyle \<Rightarrow> (string \<Rightarrow> rat) \<Rightarrow> bool \<Rightarrow> event list \<Rightarrow> job" where
  "run cues style measureText ctxAvailable events =
     foldl (step cues style measureText) (burnSubtitles ctxAvailable) events"

text \<open>
  A job in which no recorder exists, nothing is scheduled by \<^verbatim>\<open>draw\<close>, no frame
  is drawn and no progress is reported; and the message of \<^verbatim>\<open>video.onerror\<close>.
\<close>

definition idle :: "job \<Rightarrow> bool" where
  "idle s \<longleftrightarrow> recorder s = None \<and> \<not> playCalled s \<and> frameRequests s = 0 \<and> \<not> stopPending s \<and>
     frames s = [] \<and> reported s = []"

definition videoErrorMessage :: string where
  "videoErrorMessage = ''Video playback error during processing''"

section \<open>Properties\<close>

subsection \<open>Splitting and joining\<close>

lemma str_split_not_Nil [simp]: "str_split sep s \<noteq> []"
  by (induction s) (auto split: list.splits)

lemma str_split_no_sep: "w \<in> set (str_split sep s) \<Longrightarrow> sep \<notin> set w"
proof (induction s arbitrary: w)
  case Nil
  then show ?case by simp
next
  case (Cons c cs)
  obtain v vs where vs: "str_split sep cs = v # vs"
    by (cases "str_split sep cs") auto
  with Cons show ?case
    by (auto split: if_splits)
qed

lemma str_split_id: "sep \<notin> set w \<Longrightarrow> str_split sep w = [w]"
  by (induction w) auto

lemma str_split_append:
  "str_split sep (u @ sep # v) = str_split sep u @ str_split sep v"
proof (induction u)
  case Nil
  then show ?case by simp
next
  case (Cons c cs)
  obtain w ws where "str_split sep cs = w # ws"
    by (cases "str_split sep cs") auto
  with Cons show ?case by auto
qed

lemma str_join_split: "str_join sep (str_split sep s) = s"
proof (induction s)
  case Nil
  then show ?case by simp
next
  case (Cons c cs)
  obtain w ws where ws: "str_split sep cs = w # ws"
    by (cases "str_split sep cs") auto
  with Cons show ?case
    by (cases ws) auto
qed

lemma str_join_snoc: "ws \<noteq> [] \<Longrightarrow> str_join sep (ws @ [w]) = str_join sep ws @ sep # w"
  by (induction sep ws rule: str_join.induct) auto

lemma tl_split_no_sep: "\<forall>w \<in> set (tl (str_split sep s)). sep \<notin> set w"
  by (metis list.set_sel(2) str_split_no_sep str_split_not_Nil)

lemma hd_split_no_sep: "sep \<notin> set (hd (str_split sep s))"
  by (simp add: str_split_no_sep [of _ sep s])

lemma hd_split_single: "str_split sep (hd (str_split sep s)) = [hd (str_split sep s)]"
  by (rule str_split_id) (simp add: str_split_no_sep [of _ sep s])

lemma str_split3:
  assumes "sep \<notin> set a" and "sep \<notin> set b" and "sep \<notin> set c"
  shows "str_split sep (a @ sep # b @ sep # c) = [a, b, c]"
  using assms by (simp add: str_split_append str_split_id)

lemma str_split2:
  assumes "sep \<notin> set a" and "sep \<notin> set b"
  shows "str_split sep (a @ sep # b) = [a, b]"
  using assms by (simp add: str_split_append str_split_id)

lemma replace_first_append:
  "a \<notin> set u \<Longrightarrow> replace_first a b (u @ a # v) = u @ b # v"
  by (induction u) auto

lemma replace_first_no_colon:
  "CHR '':'' \<notin> set s \<Longrightarrow> CHR '':'' \<notin> set (replace_first (CHR '','') (CHR ''.'') s)"
  by (induction s) auto

subsection \<open>The active cue\<close>

text \<open>
  Claim C2. For every cue list and every time \<open>t\<close>, the resolver returns the first cue
  in list order whose closed interval from \<open>startTime\<close> to \<open>endTime\<close> contains
  \<open>t\<close>, also when a later cue contains \<open>t\<close> as well; it returns none exactly when
  no cue contains \<open>t\<close>, in particular for the empty list. The function is total: no
  order or disjointness of the cues is assumed.
\<close>

theorem activeCue_first_match:
  "(activeCue cues t = Some c \<longleftrightarrow>
      (\<exists>i < length cues. cues ! i = c \<and> startTime c \<le> t \<and> t \<le> endTime c \<and>
         (\<forall>j < i. \<not> (startTime (cues ! j) \<le> t \<and> t \<le> endTime (cues ! j)))))
   \<and> (activeCue cues t = None \<longleftrightarrow>
      (\<forall>c \<in> set cues. \<not> (startTime c \<le> t \<and> t \<le> endTime c)))
   \<and> activeCue [] t = None"
  unfolding activeCue_def isActive_def find_Some_iff find_None_iff
  by auto

theorem activeCue_first_match_witness:
  "activeCue [cueA, cueB, cueC] 3 = Some cueA \<and>
   (\<exists>i < length [cueA, cueB, cueC]. [cueA, cueB, cueC] ! i = cueA \<and>
      startTime cueA \<le> 3 \<and> 3 \<le> endTime cueA \<and>
      (\<forall>j < i. \<not> (startTime ([cueA, cueB, cueC] ! j) \<le> 3 \<and>
                     3 \<le> endTime ([cueA, cueB, cueC] ! j)))) \<and>
   startTime cueB \<le> 3 \<and> 3 \<le> endTime cueB \<and>
   activeCue [cueA, cueB, cueC] 7 = None \<and>
   \<not> (startTime cueA \<le> 7 \<and> 7 \<le> endTime cueA) \<and>
   \<not> (startTime cueB \<le> 7 \<and> 7 \<le> endTime cueB) \<and>
   \<not> (startTime cueC \<le> 7 \<and> 7 \<le> endTime cueC)"
proof -
  have 1: "activeCue [cueA, cueB, cueC] 3 = Some cueA"
    by (simp add: activeCue_def isActive_def cueA_def)
  have 2: "activeCue [cueA, cueB, cueC] 7 = None"
    by (simp add: activeCue_def isActive_def cueA_def cueB_def cueC_def)
  have 3: "startTime cueB \<le> 3 \<and> 3 \<le> endTime cueB"
    by (simp add: cueB_def)
  from 1 2 3 activeCue_first_match [of "[cueA, cueB, cueC]" 3 cueA]
    activeCue_first_match [of "[cueA, cueB, cueC]" 7 cueA]
  show ?thesis by simp
qed

subsection \<open>Word wrap\<close>

lemma wrapWords_acc:
  "wrapWords m mw ws (lines, cur) =
     (lines @ fst (wrapWords m mw ws ([], cur)), snd (wrapWords m mw ws ([], cur)))"
proof (induction ws arbitrary: lines cur)
  case Nil
  then show ?case by simp
next
  case (Cons w ws)
  show ?case
  proof (cases "m (cur @ SPACE # w) < mw")
    case True
    then show ?thesis using Cons [of lines "cur @ SPACE # w"] by simp
  next
    case False
    then show ?thesis
      using Cons [of "lines @ [cur]" w] Cons [of "[cur]" w] by simp
  qed
qed

lemma wrapParagraph_acc:
  "wrapParagraph m mw lines p = lines @ paragraphLines m mw p"
  unfolding paragraphLines_def wrapParagraph_def Let_def
  by (subst wrapWords_acc) (simp add: case_prod_beta)

lemma foldl_wrapParagraph:
  "foldl (wrapParagraph m mw) acc ps = acc @ concat (map (paragraphLines m mw) ps)"
proof (induction ps arbitrary: acc)
  case Nil
  then show ?case by simp
next
  case (Cons p ps)
  then show ?case by (simp add: wrapParagraph_acc [of m mw acc p])
qed

lemma wrapText_concat:
  "wrapText m txt mw = concat (map (paragraphLines m mw) (str_split LF txt))"
  by (simp add: wrapText_def foldl_wrapParagraph)

lemma paragraphLines_not_Nil: "paragraphLines m mw p \<noteq> []"
  by (simp add: paragraphLines_def wrapParagraph_def Let_def case_prod_beta)

lemma paragraphLines_flush:
  "paragraphLines m mw p =
     flush (wrapWords m mw (tl (str_split SPACE p)) ([], hd (str_split SPACE p)))"
  by (simp add: paragraphLines_def wrapParagraph_def Let_def case_prod_beta flush_def)

lemma paragraphLines_word: "SPACE \<notin> set w \<Longrightarrow> paragraphLines m mw w = [w]"
  by (simp add: paragraphLines_flush str_split_id flush_def)

lemma length_concat_paragraphLines:
  "length ps \<le> length (concat (map (paragraphLines m mw) ps))"
proof (induction ps)
  case Nil
  then show ?case by simp
next
  case (Cons p ps)
  then show ?case
    using paragraphLines_not_Nil [of m mw p]
    by (cases "paragraphLines m mw p") auto
qed

lemma wrapWords_words:
  "\<forall>w \<in> set ws. SPACE \<notin> set w \<Longrightarrow>
   concat (map (str_split SPACE) (flush (wrapWords m mw ws (lines, cur)))) =
     concat (map (str_split SPACE) lines) @ str_split SPACE cur @ ws"
proof (induction ws arbitrary: lines cur)
  case Nil
  then show ?case by (simp add: flush_def)
next
  case (Cons w ws)
  from Cons.prems(1) have w: "str_split SPACE w = [w]" and ws: "\<forall>w \<in> set ws. SPACE \<notin> set w"
    by (simp_all add: str_split_id)
  show ?case
  proof (cases "m (cur @ SPACE # w) < mw")
    case True
    then show ?thesis
      using Cons.IH [OF ws, of lines "cur @ SPACE # w"] by (simp add: str_split_append w)
  next
    case False
    then show ?thesis
      using Cons.IH [OF ws, of "lines @ [cur]" w] by (simp add: w)
  qed
qed

lemma paragraphLines_words:
  "concat (map (str_split SPACE) (paragraphLines m mw p)) = str_split SPACE p"
proof -
  have "\<forall>w \<in> set (tl (str_split SPACE p)). SPACE \<notin> set w"
    by (metis list.set_sel(2) str_split_no_sep str_split_not_Nil)
  from wrapWords_words [OF this, of m mw "[]" "hd (str_split SPACE p)"]
  show ?thesis
    by (simp add: paragraphLines_flush hd_split_single)
qed

lemma fits_word: "SPACE \<notin> set w \<Longrightarrow> fits m mw w"
  by (simp add: fits_def str_split_id)

lemma fits_snoc:
  assumes "fits m mw cur" and "SPACE \<notin> set w" and "m (cur @ SPACE # w) < mw"
  shows "fits m mw (cur @ SPACE # w)"
  unfolding fits_def
proof (intro allI impI)
  fix k
  assume k: "1 < k \<and> k \<le> length (str_split SPACE (cur @ SPACE # w))"
  have sp: "str_split SPACE (cur @ SPACE # w) = str_split SPACE cur @ [w]"
    using assms(2) by (simp add: str_split_append str_split_id)
  show "m (str_join SPACE (take k (str_split SPACE (cur @ SPACE # w)))) < mw"
  proof (cases "k \<le> length (str_split SPACE cur)")
    case True
    with k assms(1) show ?thesis by (simp add: sp fits_def)
  next
    case False
    with k have "take k (str_split SPACE cur @ [w]) = str_split SPACE cur @ [w]"
      by (simp add: sp)
    then show ?thesis
      using assms(3) by (simp add: sp str_join_snoc str_join_split)
  qed
qed

lemma wrapWords_fits:
  "\<forall>w \<in> set ws. SPACE \<notin> set w \<Longrightarrow> \<forall>l \<in> set lines. fits m mw l \<Longrightarrow> fits m mw cur \<Longrightarrow>
   \<forall>l \<in> set (flush (wrapWords m mw ws (lines, cur))). fits m mw l"
proof (induction ws arbitrary: lines cur)
  case Nil
  then show ?case by (simp add: flush_def)
next
  case (Cons w ws)
  from Cons.prems(1) have w: "SPACE \<notin> set w" and ws: "\<forall>w \<in> set ws. SPACE \<notin> set w"
    by simp_all
  show ?case
  proof (cases "m (cur @ SPACE # w) < mw")
    case True
    then have "fits m mw (cur @ SPACE # w)"
      using Cons.prems(3) w by (simp add: fits_snoc)
    from Cons.IH [OF ws Cons.prems(2) this] True show ?thesis by simp
  next
    case False
    have "\<forall>l \<in> set (lines @ [cur]). fits m mw l"
      using Cons.prems by simp
    from Cons.IH [OF ws this fits_word [OF w]] False show ?thesis by simp
  qed
qed

lemma paragraphLines_fits: "l \<in> set (paragraphLines m mw p) \<Longrightarrow> fits m mw l"
proof -
  have "\<forall>l \<in> set ([]::string list). fits m mw l" by simp
  from wrapWords_fits [OF tl_split_no_sep this fits_word [OF hd_split_no_sep]]
  show "l \<in> set (paragraphLines m mw p) \<Longrightarrow> fits m mw l"
    by (simp add: paragraphLines_flush)
qed

lemma fits_width:
  assumes "fits m mw l"
  shows "m l < mw \<or> str_split SPACE l = [l]"
proof (cases "1 < length (str_split SPACE l)")
  case True
  with assms have "m (str_join SPACE (take (length (str_split SPACE l)) (str_split SPACE l))) < mw"
    unfolding fits_def by blast
  then show ?thesis by (simp add: str_join_split)
next
  case False
  then obtain w where w: "str_split SPACE l = [w]"
    by (cases "str_split SPACE l") auto
  then have "str_join SPACE [w] = l"
    using str_join_split [of SPACE l] by simp
  with w show ?thesis by simp
qed

lemma forced_snoc:
  "forced m mw (ls @ [a]) \<Longrightarrow> \<not> m (a @ SPACE # hd (str_split SPACE b)) < mw \<Longrightarrow>
   forced m mw (ls @ [a, b])"
proof (induction ls)
  case Nil
  then show ?case by simp
next
  case (Cons x xs)
  then show ?case by (cases xs) auto
qed

lemma forced_last:
  "forced m mw (ls @ [a]) \<Longrightarrow> hd (str_split SPACE a') = hd (str_split SPACE a) \<Longrightarrow>
   forced m mw (ls @ [a'])"
proof (induction ls)
  case Nil
  then show ?case by simp
next
  case (Cons x xs)
  then show ?case by (cases xs) auto
qed

lemma wrapWords_forced:
  "\<forall>w \<in> set ws. SPACE \<notin> set w \<Longrightarrow> forced m mw (lines @ [cur]) \<Longrightarrow>
   forced m mw (flush (wrapWords m mw ws (lines, cur)))"
proof (induction ws arbitrary: lines cur)
  case Nil
  then show ?case by (simp add: flush_def)
next
  case (Cons w ws)
  from Cons.prems(1) have w: "str_split SPACE w = [w]" and ws: "\<forall>w \<in> set ws. SPACE \<notin> set w"
    by (simp_all add: str_split_id)
  show ?case
  proof (cases "m (cur @ SPACE # w) < mw")
    case True
    have "hd (str_split SPACE (cur @ SPACE # w)) = hd (str_split SPACE cur)"
      by (simp add: str_split_append)
    from Cons.IH [OF ws forced_last [OF Cons.prems(2) this]] True show ?thesis by simp
  next
    case False
    then have "\<not> m (cur @ SPACE # hd (str_split SPACE w)) < mw"
      by (simp add: w)
    from Cons.IH [OF ws, of "lines @ [cur]" w] forced_snoc [OF Cons.prems(2) this] False
    show ?thesis by simp
  qed
qed

lemma paragraphLines_forced: "forced m mw (paragraphLines m mw p)"
  using wrapWords_forced [OF tl_split_no_sep, of m mw "[]"]
  by (simp add: paragraphLines_flush)

lemma forced_nth:
  "forced m mw ls \<Longrightarrow> Suc i < length ls \<Longrightarrow>
   \<not> m (ls ! i @ SPACE # hd (str_split SPACE (ls ! Suc i))) < mw"
proof (induction m mw ls arbitrary: i rule: forced.induct)
  case (1 m mw l l' ls)
  then show ?case by (cases i) auto
qed auto

lemma wrapText_line_paragraph:
  assumes "line \<in> set (wrapText m txt mw)"
  obtains p where "p \<in> set (str_split LF txt)" and "line \<in> set (paragraphLines m mw p)"
  using assms by (auto simp: wrapText_concat)

lemma single_word_line:
  assumes "line \<in> set (paragraphLines m mw p)" and "str_split SPACE line = [line]"
  shows "line \<in> set (str_split SPACE p)"
proof -
  have "line \<in> set (concat (map (str_split SPACE) (paragraphLines m mw p)))"
    using assms by (auto intro!: bexI [of _ line])
  then show ?thesis by (simp only: paragraphLines_words)
qed

text \<open>
  Claim C3. Every line that \<open>wrapText\<close> produces measures at most \<open>maxWidth\<close>,
  unless it is a single word of the input (it contains no space) that is wider than
  \<open>maxWidth\<close>, which is emitted as it is. A line is flushed as soon as the next word
  would not fit: every prefix of two or more words of a line measures less than
  \<open>maxWidth\<close>.
\<close>

theorem wrapText_width:
  "line \<in> set (wrapText m txt mw) \<Longrightarrow>
     (m line \<le> mw \<or>
        (mw < m line \<and> str_split SPACE line = [line] \<and>
         (\<exists>p \<in> set (str_split LF txt). line \<in> set (str_split SPACE p))))
     \<and> (\<forall>k. 1 < k \<and> k \<le> length (str_split SPACE line) \<longrightarrow>
            m (str_join SPACE (take k (str_split SPACE line))) < mw)"
proof -
  assume "line \<in> set (wrapText m txt mw)"
  then obtain p where p: "p \<in> set (str_split LF txt)" and l: "line \<in> set (paragraphLines m mw p)"
    by (rule wrapText_line_paragraph)
  from l have f: "fits m mw line" by (rule paragraphLines_fits)
  have "m line \<le> mw \<or>
        (mw < m line \<and> str_split SPACE line = [line] \<and>
         (\<exists>p \<in> set (str_split LF txt). line \<in> set (str_split SPACE p)))"
  proof (cases "m line \<le> mw")
    case True
    then show ?thesis by simp
  next
    case False
    with fits_width [OF f] have s: "str_split SPACE line = [line]" by auto
    from single_word_line [OF l s] p False s show ?thesis by auto
  qed
  with f show ?thesis unfolding fits_def by blast
qed

lemma wrapText_example: "wrapText len_measure ''a b c d'' 4 = [''a b'', ''c d'']"
  by (simp add: wrapText_def wrapParagraph_def LF_def SPACE_def len_measure_def)

lemma wrapText_long: "wrapText len_measure ''a bcdefg'' 4 = [''a'', ''bcdefg'']"
  by (simp add: wrapText_def wrapParagraph_def LF_def SPACE_def len_measure_def)

theorem wrapText_width_witness:
  "''a b'' \<in> set (wrapText len_measure ''a b c d'' 4) \<and>
   len_measure ''a b'' \<le> 4 \<and>
   1 < (2::nat) \<and> 2 \<le> length (str_split SPACE ''a b'') \<and>
   len_measure (str_join SPACE (take 2 (str_split SPACE ''a b''))) < 4 \<and>
   ''bcdefg'' \<in> set (wrapText len_measure ''a bcdefg'' 4) \<and>
   4 < len_measure ''bcdefg'' \<and> str_split SPACE ''bcdefg'' = [''bcdefg'']"
proof -
  have 1: "''a b'' \<in> set (wrapText len_measure ''a b c d'' 4)"
    by (simp add: wrapText_example)
  have 2: "''bcdefg'' \<in> set (wrapText len_measure ''a bcdefg'' 4)"
    by (simp add: wrapText_long)
  have 3: "1 < (2::nat) \<and> 2 \<le> length (str_split SPACE ''a b'')"
    by (simp add: SPACE_def)
  have 4: "\<not> len_measure ''bcdefg'' \<le> 4"
    by (simp add: len_measure_def)
  from wrapText_width [OF 1] 3
  have "len_measure ''a b'' \<le> 4 \<and>
        len_measure (str_join SPACE (take 2 (str_split SPACE ''a b''))) < 4"
    by (simp add: len_measure_def SPACE_def)
  moreover from wrapText_width [OF 2] 4
  have "4 < len_measure ''bcdefg'' \<and> str_split SPACE ''bcdefg'' = [''bcdefg'']"
    by blast
  ultimately show ?thesis using 1 2 3 by blast
qed

text \<open>
  Claim C5. \<open>wrapText\<close> splits at line breaks first: its result is the concatenation
  of the lines of the paragraphs, in order. Each paragraph contributes at least one
  line, the empty paragraph the single empty line, so there are at least as many lines
  as paragraphs. \<^verbatim>\<open>"Hello\nWorld"\<close> gives the two lines \<open>Hello\<close> and
  \<open>World\<close> for every measure and every width.
\<close>

theorem wrapText_paragraphs:
  "wrapText m txt mw = concat (map (paragraphLines m mw) (str_split LF txt))
   \<and> wrapParagraph m mw lines p = lines @ paragraphLines m mw p
   \<and> paragraphLines m mw p \<noteq> []
   \<and> paragraphLines m mw [] = [[]]
   \<and> length (str_split LF txt) \<le> length (wrapText m txt mw)
   \<and> wrapText m (''Hello'' @ LF # ''World'') mw = [''Hello'', ''World'']"
proof -
  have "wrapText m (''Hello'' @ LF # ''World'') mw = [''Hello'', ''World'']"
    by (simp add: wrapText_concat str_split_append str_split_id paragraphLines_word
        LF_def SPACE_def)
  then show ?thesis
    using wrapText_concat [of m "txt" mw] wrapParagraph_acc [of m mw "lines" p]
      paragraphLines_not_Nil [of m mw p] paragraphLines_word [of "[]" m mw]
      length_concat_paragraphLines [of "str_split LF txt" m mw]
    by simp
qed

text \<open>
  Claim C10. The word wrap preserves words: the words of the lines of a paragraph,
  concatenated in order, are the words of the paragraph, and so for the whole text.
\<close>

theorem wrapText_preserves_words:
  "concat (map (str_split SPACE) (paragraphLines m mw p)) = str_split SPACE p
   \<and> wrapText m txt mw = concat (map (paragraphLines m mw) (str_split LF txt))
   \<and> concat (map (str_split SPACE) (wrapText m txt mw)) =
       concat (map (str_split SPACE) (str_split LF txt))"
proof -
  have "concat (map (str_split SPACE) (concat (map (paragraphLines m mw) ps))) =
        concat (map (str_split SPACE) ps)" for ps
    by (induction ps) (simp_all add: paragraphLines_words)
  then show ?thesis
    by (simp add: paragraphLines_words wrapText_concat)
qed

subsection \<open>The background box\<close>

lemma foldl_widest:
  "foldl (\<lambda>w line. if m line > w then m line else w) acc ls = Max (insert acc (m ` set ls))"
proof (induction ls arbitrary: acc)
  case Nil
  then show ?case by simp
next
  case (Cons l ls)
  have "Max (insert (max acc (m l)) (m ` set ls)) = Max (insert acc (insert (m l) (m ` set ls)))"
    by (cases "ls = []") (simp_all add: max.assoc)
  moreover have "(if m l > acc then m l else acc) = max acc (m l)"
    by (auto simp: max_def)
  ultimately show ?case using Cons [of "max acc (m l)"] by simp
qed

lemma widestLine_Max: "widestLine m ls = Max (insert 0 (m ` set ls))"
  by (simp add: widestLine_def foldl_widest)

lemma widestLine_nonneg:
  assumes "ls \<noteq> []" and "\<forall>l \<in> set ls. 0 \<le> m l"
  shows "widestLine m ls = Max (m ` set ls)"
proof -
  from assms obtain l where l: "l \<in> set ls" "0 \<le> m l"
    by (cases ls) auto
  from l(1) have "m l \<le> Max (m ` set ls)"
    by (intro Max_ge) auto
  with l(2) have "0 \<le> Max (m ` set ls)"
    by (rule order_trans)
  then show ?thesis
    using assms(1) by (simp add: widestLine_Max max_def)
qed

lemma wrapText_not_Nil: "wrapText m txt mw \<noteq> []"
proof -
  obtain p ps where "str_split LF txt = p # ps"
    by (cases "str_split LF txt") auto
  then show ?thesis
    by (simp add: wrapText_concat paragraphLines_not_Nil)
qed

lemma backgroundBox_geometry:
  "rectHeight (backgroundBox m ls fs lh x y) = of_nat (length ls) * lh + 2 * (fs * (3 / 10))"
  "rectWidth (backgroundBox m ls fs lh x y) = widestLine m ls + 2 * (fs * (6 / 10))"
  "rectX (backgroundBox m ls fs lh x y) + rectWidth (backgroundBox m ls fs lh x y) / 2 = x"
  "rectY (backgroundBox m ls fs lh x y) + rectHeight (backgroundBox m ls fs lh x y) =
     y + fs * (2 / 10)"
  by (simp_all add: backgroundBox_def Let_def)

text \<open>
  Claim C6. When the background colour is \<^verbatim>\<open>'transparent'\<close> no box is drawn.
  Otherwise one box is drawn, in the background colour: its height is the number of
  lines times the line height plus twice 0.3 times the effective font size, whatever the
  lines contain; its width is the width of the widest line (widths being non-negative)
  plus twice 0.6 times the effective font size; it is centred on \<open>width / 2\<close>; its
  bottom is at the anchor \<open>y\<close> plus 0.2 times the effective font size.
\<close>

theorem background_box_geometry:
  fixes measureText :: "string \<Rightarrow> rat" and style :: SubtitleStyle
    and str :: string and width height :: rat
  defines "fs \<equiv> fontSize style * (height / 600)"
    and "ls \<equiv> wrapText measureText str (width * (8 / 10))"
  defines "lh \<equiv> fs * (125 / 100)"
    and "calls \<equiv> drawSubtitleOnCanvas measureText str style width height"
  shows "(backgroundColor style = ''transparent'' \<longrightarrow> filter isFillRect calls = []) \<and>
    (backgroundColor style \<noteq> ''transparent'' \<longrightarrow>
      (\<exists>b. filter isFillRect calls = [FillRect (backgroundColor style) b] \<and>
         rectHeight b = of_nat (length ls) * lh + 2 * (fs * (3 / 10)) \<and>
         rectWidth b = Max (insert 0 (measureText ` set ls)) + 2 * (fs * (6 / 10)) \<and>
         ((\<forall>l \<in> set ls. 0 \<le> measureText l) \<longrightarrow>
            rectWidth b = Max (measureText ` set ls) + 2 * (fs * (6 / 10))) \<and>
         rectX b + rectWidth b / 2 = width / 2 \<and>
         rectY b + rectHeight b = height * (1 - position style / 100) + fs * (2 / 10)))"
proof -
  have texts: "filter isFillRect (map (\<lambda>(index, line). FillText line x (f index)) xs) = []"
    for x f and xs :: "(nat \<times> string) list"
    by (induction xs) auto
  define b where "b = backgroundBox measureText ls fs lh (width / 2)
    (height * (1 - position style / 100))"
  have 1: "filter isFillRect calls = []" if "backgroundColor style = ''transparent''"
    using that by (simp add: calls_def drawSubtitleOnCanvas_def Let_def texts)
  have 2: "filter isFillRect calls = [FillRect (backgroundColor style) b]"
    if "backgroundColor style \<noteq> ''transparent''"
    using that
    by (simp add: calls_def drawSubtitleOnCanvas_def Let_def texts b_def fs_def ls_def lh_def)
  have 3: "rectWidth b = Max (measureText ` set ls) + 2 * (fs * (6 / 10))"
    if "\<forall>l \<in> set ls. 0 \<le> measureText l"
    using widestLine_nonneg [OF _ that] wrapText_not_Nil
    by (simp add: b_def backgroundBox_geometry ls_def)
  have 4: "rectWidth b = Max (insert 0 (measureText ` set ls)) + 2 * (fs * (6 / 10))"
    by (simp add: b_def backgroundBox_geometry widestLine_Max)
  show ?thesis
    using 1 2 3 4 backgroundBox_geometry(1,3,4) [of measureText ls fs lh "width / 2"
        "height * (1 - position style / 100)", folded b_def]
    by blast
qed

theorem background_box_geometry_witness:
  "backgroundColor DEFAULT_STYLE \<noteq> ''transparent'' \<and>
   wrapText len_measure (''Hello'' @ LF # ''World'') (1280 * (8 / 10)) = [''Hello'', ''World''] \<and>
   0 \<le> len_measure ''Hello'' \<and> 0 \<le> len_measure ''World'' \<and>
   (\<exists>b. filter isFillRect
          (drawSubtitleOnCanvas len_measure (''Hello'' @ LF # ''World'') DEFAULT_STYLE 1280 720) =
          [FillRect ''rgba(0,0,0,0.5)'' b] \<and>
        rectHeight b = 2232 / 25 \<and> rectWidth b = 989 / 25 \<and>
        rectX b + rectWidth b / 2 = 640 \<and> rectY b + rectHeight b = 16344 / 25) \<and>
   backgroundColor (DEFAULT_STYLE\<lparr>backgroundColor := ''transparent''\<rparr>) = ''transparent'' \<and>
   filter isFillRect
     (drawSubtitleOnCanvas len_measure (''Hello'' @ LF # ''World'')
        (DEFAULT_STYLE\<lparr>backgroundColor := ''transparent''\<rparr>) 1280 720) = []"
proof -
  have 1: "backgroundColor DEFAULT_STYLE \<noteq> ''transparent''"
    by (simp add: DEFAULT_STYLE_def)
  have 2: "wrapText len_measure (''Hello'' @ LF # ''World'') (1280 * (8 / 10)) =
      [''Hello'', ''World'']"
    by code_simp
  have w2: "wrapText len_measure (''Hello'' @ LF # ''World'') 1024 = [''Hello'', ''World'']"
    by code_simp
  have 3: "0 \<le> len_measure ''Hello'' \<and> 0 \<le> len_measure ''World''"
    by (simp add: len_measure_def)
  have 4: "backgroundColor (DEFAULT_STYLE\<lparr>backgroundColor := ''transparent''\<rparr>) = ''transparent''"
    by simp
  note A = background_box_geometry [where style = DEFAULT_STYLE and measureText = len_measure
      and str = "''Hello'' @ LF # ''World''" and width = 1280 and height = 720]
  note B = background_box_geometry [where measureText = len_measure
      and style = "DEFAULT_STYLE\<lparr>backgroundColor := ''transparent''\<rparr>"
      and str = "''Hello'' @ LF # ''World''" and width = 1280 and height = 720]
  from A 1 obtain b where b:
    "filter isFillRect
       (drawSubtitleOnCanvas len_measure (''Hello'' @ LF # ''World'') DEFAULT_STYLE 1280 720) =
     [FillRect (backgroundColor DEFAULT_STYLE) b]"
    "rectHeight b = of_nat (length (wrapText len_measure (''Hello'' @ LF # ''World'')
         (1280 * (8 / 10)))) * (fontSize DEFAULT_STYLE * (720 / 600) * (125 / 100)) +
       2 * (fontSize DEFAULT_STYLE * (720 / 600) * (3 / 10))"
    "(\<forall>l \<in> set (wrapText len_measure (''Hello'' @ LF # ''World'') (1280 * (8 / 10))).
        0 \<le> len_measure l) \<longrightarrow>
     rectWidth b = Max (len_measure ` set (wrapText len_measure (''Hello'' @ LF # ''World'')
         (1280 * (8 / 10)))) + 2 * (fontSize DEFAULT_STYLE * (720 / 600) * (6 / 10))"
    "rectX b + rectWidth b / 2 = 1280 / 2"
    "rectY b + rectHeight b =
       720 * (1 - position DEFAULT_STYLE / 100) + fontSize DEFAULT_STYLE * (720 / 600) * (2 / 10)"
    by blast
  have h: "rectHeight b = 2232 / 25"
    using b(2) w2 by (simp add: DEFAULT_STYLE_def)
  have w: "rectWidth b = 989 / 25"
    using b(3) 3 w2 by (simp add: DEFAULT_STYLE_def len_measure_def)
  have x: "rectX b + rectWidth b / 2 = 640"
    using b(4) by simp
  have y: "rectY b + rectHeight b = 16344 / 25"
    using b(5) by (simp add: DEFAULT_STYLE_def)
  have c: "FillRect (backgroundColor DEFAULT_STYLE) b = FillRect ''rgba(0,0,0,0.5)'' b"
    by (simp add: DEFAULT_STYLE_def)
  from B 4 have t: "filter isFillRect
     (drawSubtitleOnCanvas len_measure (''Hello'' @ LF # ''World'')
        (DEFAULT_STYLE\<lparr>backgroundColor := ''transparent''\<rparr>) 1280 720) = []"
    by blast
  from b(1) h w x y have "\<exists>b. filter isFillRect
          (drawSubtitleOnCanvas len_measure (''Hello'' @ LF # ''World'') DEFAULT_STYLE 1280 720) =
          [FillRect ''rgba(0,0,0,0.5)'' b] \<and>
        rectHeight b = 2232 / 25 \<and> rectWidth b = 989 / 25 \<and>
        rectX b + rectWidth b / 2 = 640 \<and> rectY b + rectHeight b = 16344 / 25"
    unfolding c by blast
  with 1 2 3 4 t show ?thesis by blast
qed

subsection \<open>Failure while the metadata loads\<close>

lemma idle_settle: "idle (settle out s) = idle s"
  by (simp add: idle_def settle_def)

lemma handlers_settle: "handlers (settle out s) = handlers s"
  by (simp add: settle_def)

lemma idle_step:
  assumes "idle s" and "\<not> isLoadedMetadata e"
  shows "idle (step cues style m s e)"
  using assms by (cases e) (auto simp: idle_def settle_def Let_def)

lemma handlers_draw: "handlers (draw cues style m video s) = handlers s"
  by (simp add: draw_def Let_def)

lemma handlers_step: "handlers (step cues style m s e) = handlers s"
  by (cases e) (simp_all add: handlers_settle handlers_draw Let_def)

lemma idle_burnSubtitles: "idle (burnSubtitles ctx)"
  by (simp add: idle_def burnSubtitles_def settle_def Let_def)

lemma handlers_burnSubtitles: "handlers (burnSubtitles ctx) = ctx"
  by (simp add: burnSubtitles_def settle_def Let_def)

lemma surfaced_burnSubtitles:
  "surfaced (burnSubtitles ctx) =
     (if ctx then [] else [Rejected ''Could not get canvas context''])"
  by (simp add: burnSubtitles_def settle_def Let_def)

lemma surfaced_step:
  assumes "idle s" and "\<not> isLoadedMetadata e"
  shows "surfaced (step cues style m s e) =
    (if e = VideoError \<and> handlers s \<and> surfaced s = [] then [Rejected videoErrorMessage]
     else surfaced s)"
  using assms by (cases e) (auto simp: idle_def settle_def Let_def videoErrorMessage_def)

lemma foldl_idle:
  assumes "idle s" and "\<forall>e \<in> set evs. \<not> isLoadedMetadata e"
  shows "idle (foldl (step cues style m) s evs)"
    and "handlers (foldl (step cues style m) s evs) = handlers s"
  using assms
proof (induction evs arbitrary: s)
  case Nil
  {
    case 1
    then show ?case by simp
  next
    case 2
    then show ?case by simp
  }
next
  case (Cons e evs)
  {
    case 1
    then show ?case using Cons.IH(1) [of "step cues style m s e"] by (simp add: idle_step)
  next
    case 2
    then show ?case
      using Cons.IH(2) [of "step cues style m s e"] by (simp add: idle_step handlers_step)
  }
qed

lemma foldl_surfaced_kept:
  assumes "idle s" and "\<forall>e \<in> set evs. \<not> isLoadedMetadata e" and "surfaced s \<noteq> []"
  shows "surfaced (foldl (step cues style m) s evs) = surfaced s"
  using assms
proof (induction evs arbitrary: s)
  case Nil
  then show ?case by simp
next
  case (Cons e evs)
  have "surfaced (step cues style m s e) = surfaced s"
    using Cons.prems by (simp add: surfaced_step)
  then show ?case
    using Cons.IH [of "step cues style m s e"] Cons.prems by (simp add: idle_step)
qed

lemma foldl_surfaced_error:
  assumes "idle s" and "\<forall>e \<in> set evs. \<not> isLoadedMetadata e" and "surfaced s = []"
    and "handlers s"
  shows "surfaced (foldl (step cues style m) s evs) =
    (if VideoError \<in> set evs then [Rejected videoErrorMessage] else [])"
  using assms
proof (induction evs arbitrary: s)
  case Nil
  then show ?case by simp
next
  case (Cons e evs)
  let ?s = "step cues style m s e"
  have i: "idle ?s" and h: "handlers ?s" and n: "\<forall>e \<in> set evs. \<not> isLoadedMetadata e"
    using Cons.prems by (simp_all add: idle_step handlers_step)
  show ?case
  proof (cases "e = VideoError")
    case True
    then have "surfaced ?s = [Rejected videoErrorMessage]"
      using Cons.prems(3,4) by (simp add: settle_def videoErrorMessage_def)
    with foldl_surfaced_kept [OF i n, of cues style m] True show ?thesis by simp
  next
    case False
    then have "surfaced ?s = []"
      using Cons.prems by (simp add: surfaced_step)
    from Cons.IH [OF i n this h] False show ?thesis by simp
  qed
qed

text \<open>
  Claim C9. When the source fails while its metadata loads, that is in every sequence of
  events without \<^verbatim>\<open>loadedmetadata\<close>, no recorder is ever created, no frame is
  drawn and no progress is reported, at any moment; and once the video has raised its
  error, the caller has received exactly one rejection and nothing else.
\<close>

theorem metadata_failure:
  assumes "\<forall>e \<in> set events. \<not> isLoadedMetadata e"
  shows "(\<forall>n. recorder (run cues style m ctx (take n events)) = None \<and>
              frames (run cues style m ctx (take n events)) = [] \<and>
              reported (run cues style m ctx (take n events)) = [])
    \<and> (VideoError \<in> set events \<longrightarrow>
          (\<exists>msg. surfaced (run cues style m ctx events) = [Rejected msg]))
    \<and> (VideoError \<in> set events \<and> ctx \<longrightarrow>
          surfaced (run cues style m ctx events) = [Rejected videoErrorMessage])"
proof -
  have "idle (run cues style m ctx (take n events))" for n
    unfolding run_def using assms
    by (intro foldl_idle(1) idle_burnSubtitles) (auto dest: in_set_takeD)
  then have 1: "recorder (run cues style m ctx (take n events)) = None \<and>
      frames (run cues style m ctx (take n events)) = [] \<and>
      reported (run cues style m ctx (take n events)) = []" for n
    unfolding idle_def by blast
  have 2: "surfaced (run cues style m ctx events) = [Rejected videoErrorMessage]"
    if "VideoError \<in> set events" and ctx
    unfolding run_def
    using foldl_surfaced_error [OF idle_burnSubtitles assms, of ctx cues style m] that
    by (simp add: surfaced_burnSubtitles handlers_burnSubtitles)
  have 3: "surfaced (run cues style m ctx events) = [Rejected ''Could not get canvas context'']"
    if "\<not> ctx"
    unfolding run_def
    using foldl_surfaced_kept [OF idle_burnSubtitles assms, of ctx cues style m] that
    by (simp add: surfaced_burnSubtitles)
  from 1 2 3 show ?thesis by blast
qed

theorem metadata_failure_witness:
  "\<not> isLoadedMetadata VideoEnded \<and> \<not> isLoadedMetadata VideoError \<and>
   \<not> isLoadedMetadata TimerFired \<and>
   VideoError \<in> set [VideoEnded, VideoError, TimerFired, VideoError] \<and>
   recorder (run [cueA] DEFAULT_STYLE len_measure True
     (take 4 [VideoEnded, VideoError, TimerFired, VideoError])) = None \<and>
   surfaced (run [cueA] DEFAULT_STYLE len_measure True
     [VideoEnded, VideoError, TimerFired, VideoError]) = [Rejected videoErrorMessage]"
proof -
  have 1: "\<not> isLoadedMetadata VideoEnded \<and> \<not> isLoadedMetadata VideoError \<and>
      \<not> isLoadedMetadata TimerFired"
    by simp
  then have 2: "\<forall>e \<in> set [VideoEnded, VideoError, TimerFired, VideoError]. \<not> isLoadedMetadata e"
    by simp
  have 3: "VideoError \<in> set [VideoEnded, VideoError, TimerFired, VideoError]"
    by simp
  from metadata_failure [OF 2, of "[cueA]" DEFAULT_STYLE len_measure True] 3
  have "recorder (run [cueA] DEFAULT_STYLE len_measure True
          (take 4 [VideoEnded, VideoError, TimerFired, VideoError])) = None \<and>
        surfaced (run [cueA] DEFAULT_STYLE len_measure True
          [VideoEnded, VideoError, TimerFired, VideoError]) = [Rejected videoErrorMessage]"
    by blast
  with 1 3 show ?thesis by blast
qed

subsection \<open>Progress\<close>

text \<open>
  Claim C7, amended. For a playback time \<open>q \<ge> 0\<close> and a duration that is positive or
  infinite, the progress passed to the caller is
  \<open>clamp(round(q / duration \<times> 100), 0, 100)\<close> and is an integer from 0 to 100.
\<close>

theorem progress_clamped:
  assumes "0 \<le> q" and "dur = PosInf \<or> (\<exists>d. dur = Num d \<and> 0 < d)"
  shows "progress (Num q) dur = progressPercent (Num q) dur \<and>
         (\<exists>n::int. progress (Num q) dur = Num (of_int n) \<and> 0 \<le> n \<and> n \<le> 100)"
proof -
  from assms(2) obtain r where r: "js_div (Num q) dur = Num r" and r0: "0 \<le> r"
  proof
    assume "dur = PosInf"
    then have "js_div (Num q) dur = Num 0" by simp
    then show ?thesis using that by simp
  next
    assume "\<exists>d. dur = Num d \<and> 0 < d"
    then obtain d where d: "dur = Num d" "0 < d" by blast
    then have "js_div (Num q) dur = Num (q / d)" by simp
    moreover have "0 \<le> q / d" using assms(1) d(2) by simp
    ultimately show ?thesis using that by simp
  qed
  define n where "n = \<lfloor>r * 100 + 1 / 2\<rfloor>"
  have n0: "0 \<le> n"
  proof -
    have "0 \<le> r * 100" using r0 by simp
    then have "0 \<le> r * 100 + 1 / 2" by linarith
    then show ?thesis unfolding n_def by (simp only: zero_le_floor)
  qed
  have rnd: "Math_round (js_mul (js_div (Num q) dur) (Num 100)) = Num (of_int n)"
    by (simp add: r n_def)
  have mn: "Math_min (Num 100) (Num (of_int n)) = Num (of_int (min 100 n))"
    by (simp add: min_def)
  have p: "progress (Num q) dur = Num (of_int (min 100 n))"
    by (simp only: progress_def rnd mn)
  have "Math_max (Num 0) (Num (of_int (min 100 n))) = Num (of_int (min 100 n))"
    using n0 by (simp add: max_def min_def)
  then have "progressPercent (Num q) dur = Num (of_int (min 100 n))"
    by (simp only: progressPercent_def clamp_def rnd mn)
  with p n0 show ?thesis
    by (intro conjI exI [of _ "min 100 n"]) simp_all
qed

theorem progress_clamped_witness:
  "(0::rat) \<le> 5 \<and> (\<exists>d. Num 10 = Num d \<and> 0 < d) \<and>
   progress (Num 5) (Num 10) = Num 50 \<and>
   progress (Num 5) (Num 10) = progressPercent (Num 5) (Num 10) \<and>
   (\<exists>n::int. progress (Num 5) (Num 10) = Num (of_int n) \<and> 0 \<le> n \<and> n \<le> 100)"
proof -
  have 1: "(0::rat) \<le> 5" by simp
  have 2: "\<exists>d. Num 10 = Num d \<and> 0 < d" by simp
  then have 3: "Num 10 = PosInf \<or> (\<exists>d. Num 10 = Num d \<and> 0 < d)" ..
  have 4: "progress (Num 5) (Num 10) = Num 50" by code_simp
  from progress_clamped [OF 1 3] 1 2 4 show ?thesis by blast
qed

text \<open>
  Claim C7 as stated, for every time and duration, fails: the code has the upper bound
  \<^verbatim>\<open>Math.min(100, _)\<close> only. A negative time gives a negative value where the
  clamp gives 0, and the time 0 with the duration 0 gives \<open>NaN\<close>.
\<close>

theorem progress_unclamped_counterexample:
  "progress (Num (- 5)) (Num 10) = Num (- 50) \<and>
   progressPercent (Num (- 5)) (Num 10) = Num 0 \<and>
   progress (Num 0) (Num 0) = NaN"
  by code_simp

subsection \<open>Parsing a timecode\<close>

lemma total_NaN:
  assumes "h = NaN \<or> m = NaN \<or> s = NaN \<or> ms = NaN"
  shows "js_add (js_add (js_add (js_mul h (Num 3600)) (js_mul m (Num 60))) s)
           (js_div ms (Num 1000)) = NaN"
proof -
  have add1: "js_add NaN v = NaN" for v by simp
  have add2: "js_add v NaN = NaN" for v by (cases v) simp_all
  have mul: "js_mul NaN v = NaN" for v by simp
  have dv: "js_div NaN v = NaN" for v by simp
  from assms show ?thesis
    by (elim disjE) (simp_all only: add1 add2 mul dv)
qed

lemma timeParts_Nil: "timeParts [] = [[]]"
  by (simp add: timeParts_def)

lemma parseSRTTime_three:
  assumes "timeParts s = [a, b, c]"
  shows "parseSRTTime s =
    js_add (js_add (js_add (js_mul (parseInt a) (Num 3600)) (js_mul (parseInt b) (Num 60)))
      (parseInt (hd (str_split (CHR ''.'') c))))
      (js_div (parseInt (msField (str_split (CHR ''.'') c))) (Num 1000))"
proof -
  have ne: "s \<noteq> []" using assms timeParts_Nil by auto
  have hd: "str_split (CHR ''.'') c ! 0 = hd (str_split (CHR ''.'') c)"
    by (simp add: hd_conv_nth)
  show ?thesis
    using assms ne hd
    by (simp add: parseSRTTime_def timeParts_def Let_def
        del: js_add.simps js_mul.simps js_div.simps)
qed

lemma parseSRTTime_two:
  assumes "timeParts s = [b, c]"
  shows "parseSRTTime s =
    js_add (js_add (js_add (js_mul (Num 0) (Num 3600)) (js_mul (parseInt b) (Num 60)))
      (parseInt (hd (str_split (CHR ''.'') c))))
      (js_div (parseInt (msField (str_split (CHR ''.'') c))) (Num 1000))"
proof -
  have ne: "s \<noteq> []" using assms timeParts_Nil by auto
  have hd: "str_split (CHR ''.'') c ! 0 = hd (str_split (CHR ''.'') c)"
    by (simp add: hd_conv_nth)
  show ?thesis
    using assms ne hd
    by (simp add: parseSRTTime_def timeParts_def Let_def
        del: js_add.simps js_mul.simps js_div.simps)
qed

text \<open>
  Claim C4, amended. \<open>parseSRTTime\<close> is total. It returns 0 for the empty string and
  for every string that does not have two or three colon-separated parts, in particular
  for every string without a colon. With two or three parts, garbage does not give 0:
  the result is \<open>NaN\<close> whenever \<open>parseInt\<close> finds no number in one of the fields it
  reads: the hours (with three parts), the minutes, the seconds before the first full
  stop, the milliseconds after it.
\<close>

theorem parseSRTTime_zero_or_NaN:
  "parseSRTTime [] = Num 0
   \<and> (length (timeParts s) \<noteq> 2 \<and> length (timeParts s) \<noteq> 3 \<longrightarrow> parseSRTTime s = Num 0)
   \<and> (CHR '':'' \<notin> set s \<longrightarrow> parseSRTTime s = Num 0)
   \<and> (timeParts s = [a, b, c] \<and>
        (parseInt a = NaN \<or> parseInt b = NaN \<or>
         parseInt (hd (str_split (CHR ''.'') c)) = NaN \<or>
         parseInt (msField (str_split (CHR ''.'') c)) = NaN) \<longrightarrow>
        parseSRTTime s = NaN)
   \<and> (timeParts s = [b, c] \<and>
        (parseInt b = NaN \<or> parseInt (hd (str_split (CHR ''.'') c)) = NaN \<or>
         parseInt (msField (str_split (CHR ''.'') c)) = NaN) \<longrightarrow>
        parseSRTTime s = NaN)"
proof -
  have 2: "parseSRTTime [] = Num 0"
    by (simp add: parseSRTTime_def)
  have 3: "parseSRTTime s = Num 0" if "length (timeParts s) \<noteq> 2 \<and> length (timeParts s) \<noteq> 3"
    using that by (simp add: parseSRTTime_def timeParts_def Let_def)
  have 4: "parseSRTTime s = Num 0" if "CHR '':'' \<notin> set s"
  proof -
    have "timeParts s = [replace_first (CHR '','') (CHR ''.'') s]"
      unfolding timeParts_def using that by (intro str_split_id replace_first_no_colon)
    then show ?thesis using 3 by simp
  qed
  have 5: "parseSRTTime s = NaN"
    if "timeParts s = [a, b, c]" and "parseInt a = NaN \<or> parseInt b = NaN \<or>
         parseInt (hd (str_split (CHR ''.'') c)) = NaN \<or>
         parseInt (msField (str_split (CHR ''.'') c)) = NaN"
    unfolding parseSRTTime_three [OF that(1)] using that(2) by (rule total_NaN)
  have 6: "parseSRTTime s = NaN"
    if "timeParts s = [b, c]" and "parseInt b = NaN \<or>
         parseInt (hd (str_split (CHR ''.'') c)) = NaN \<or>
         parseInt (msField (str_split (CHR ''.'') c)) = NaN"
    unfolding parseSRTTime_two [OF that(1)] by (rule total_NaN) (use that(2) in simp)
  from 2 3 4 5 6 show ?thesis by blast
qed

theorem parseSRTTime_zero_or_NaN_witness:
  "length (timeParts ''1:2:3:4'') \<noteq> 2 \<and> length (timeParts ''1:2:3:4'') \<noteq> 3 \<and>
   parseSRTTime ''1:2:3:4'' = Num 0 \<and>
   CHR '':'' \<notin> set ''abc'' \<and> parseSRTTime ''abc'' = Num 0 \<and>
   timeParts ''00:xx:02,500'' = [''00'', ''xx'', ''02.500''] \<and> parseInt ''xx'' = NaN \<and>
   parseSRTTime ''00:xx:02,500'' = NaN \<and>
   timeParts ''a:b'' = [''a'', ''b''] \<and> parseInt ''a'' = NaN \<and> parseSRTTime ''a:b'' = NaN"
proof -
  have w1: "length (timeParts ''1:2:3:4'') \<noteq> 2 \<and> length (timeParts ''1:2:3:4'') \<noteq> 3"
    by code_simp
  have w2: "CHR '':'' \<notin> set ''abc''"
    by simp
  have w3: "timeParts ''00:xx:02,500'' = [''00'', ''xx'', ''02.500'']"
    by code_simp
  have w4: "parseInt ''xx'' = NaN"
    by code_simp
  have w5: "timeParts ''a:b'' = [''a'', ''b'']"
    by code_simp
  have w6: "parseInt ''a'' = NaN"
    by code_simp
  have a: "parseSRTTime ''1:2:3:4'' = Num 0"
    using parseSRTTime_zero_or_NaN [of "''1:2:3:4''"] w1 by simp
  have b: "parseSRTTime ''abc'' = Num 0"
    using parseSRTTime_zero_or_NaN [of "''abc''"] w2 by simp
  have c: "parseSRTTime ''00:xx:02,500'' = NaN"
    using parseSRTTime_zero_or_NaN [of "''00:xx:02,500''" "''00''" "''xx''" "''02.500''"] w3 w4
    by simp
  have d: "parseSRTTime ''a:b'' = NaN"
    using parseSRTTime_zero_or_NaN [of "''a:b''" _ "''a''" "''b''"] w5 w6 by simp
  from a b c d w1 w2 w3 w4 w5 w6 show ?thesis by (intro conjI) simp_all
qed

text \<open>
  Claim C4 as stated fails: the input \<^verbatim>\<open>"a:b"\<close> has two parts, neither starts
  with a digit, and the result is \<open>NaN\<close>, not 0.
\<close>

theorem parseSRTTime_garbage_counterexample:
  "parseSRTTime ''a:b'' = NaN \<and> parseSRTTime ''a:b'' \<noteq> Num 0"
  by code_simp

subsection \<open>Formatting a timecode\<close>

text \<open>
  Claim C8 at the input 0.9996: the fraction rounds to 1000 milliseconds, no second is
  carried, and the millisecond field has four digits.
\<close>

theorem formatSRTTime_ms_overflow:
  "formatSRTTime (9996 / 10000) = ''00:00:00,1000'' \<and>
   length (str_split (CHR '','') (formatSRTTime (9996 / 10000)) ! 1) = 4"
  by code_simp

subsection \<open>The round trip\<close>

lemma isDigit_char_of: "(d::nat) < 10 \<Longrightarrow> isDigit (char_of (48 + d))"
  by (simp add: isDigit_def of_char_of)

lemma digitValue_char_of: "(d::nat) < 10 \<Longrightarrow> digitValue (char_of (48 + d)) = d"
  by (simp add: digitValue_def of_char_of)

lemma digits_of_isDigit: "c \<in> set (digits_of n) \<Longrightarrow> isDigit c"
proof (induction n arbitrary: c rule: digits_of.induct)
  case (1 n)
  show ?case
  proof (cases "n < 10")
    case True
    with "1.prems" show ?thesis
      by (simp add: digits_of.simps [of n] isDigit_char_of)
  next
    case False
    with "1.prems" "1.IH" show ?thesis
      by (auto simp: digits_of.simps [of n] isDigit_char_of)
  qed
qed

lemma digits_of_not_Nil: "digits_of n \<noteq> []"
  by (simp add: digits_of.simps [of n])

lemma digitsValue_snoc: "digitsValue (ds @ [c]) = digitsValue ds * 10 + digitValue c"
  by (simp add: digitsValue_def)

lemma digitsValue_digits_of: "digitsValue (digits_of n) = n"
proof (induction n rule: digits_of.induct)
  case (1 n)
  show ?case
  proof (cases "n < 10")
    case True
    then show ?thesis
      by (simp add: digits_of.simps [of n] digitsValue_def digitValue_char_of)
  next
    case False
    with "1.IH" show ?thesis
      by (simp add: digits_of.simps [of n] digitsValue_snoc digitValue_char_of)
  qed
qed

lemma isDigit_zero: "isDigit (CHR ''0'')"
  by (simp add: isDigit_def)

lemma foldl_zeros:
  "foldl (\<lambda>acc c. acc * 10 + digitValue c) 0 (replicate k (CHR ''0'')) = 0"
  by (induction k) (simp_all add: digitValue_def)

lemma digitsValue_padStart:
  "digitsValue (padStart k (CHR ''0'') ds) = digitsValue ds"
  by (simp add: digitsValue_def padStart_def foldl_zeros)

lemma padStart_isDigit:
  "\<forall>c \<in> set ds. isDigit c \<Longrightarrow> c \<in> set (padStart k (CHR ''0'') ds) \<Longrightarrow> isDigit c"
  by (auto simp: padStart_def isDigit_zero)

lemma isDigit_other:
  assumes "isDigit c"
  shows "\<not> isWhiteSpace c" and "c \<noteq> CHR ''-''" and "c \<noteq> CHR ''+''"
    and "c \<noteq> CHR '':''" and "c \<noteq> CHR '',''" and "c \<noteq> CHR ''.''"
  using assms by (auto simp: isDigit_def isWhiteSpace_def)

lemma parseInt_digits:
  assumes "ds \<noteq> []" and "\<forall>c \<in> set ds. isDigit c"
  shows "parseInt ds = Num (of_nat (digitsValue ds))"
proof -
  from assms obtain c r where ds: "ds = c # r" and c: "isDigit c"
    by (cases ds) auto
  have 1: "dropWhile isWhiteSpace ds = ds"
    using c by (simp add: ds isDigit_other)
  have 2: "takeWhile isDigit ds = ds"
    using assms(2) by (simp add: takeWhile_eq_all_conv)
  have 3: "(case ds of
              c # r \<Rightarrow> if c = CHR ''-'' then (- 1, r)
                       else if c = CHR ''+'' then (1, r) else (1, ds)
            | [] \<Rightarrow> (1, ds)) = (1::rat, ds)"
    using c by (simp add: ds isDigit_other)
  show ?thesis
    unfolding parseInt_def Let_def 1 3
    using assms(1) by (simp add: 2)
qed

lemma pad_digits:
  assumes "0 \<le> n"
  shows "pad n k \<noteq> []" and "\<forall>c \<in> set (pad n k). isDigit c"
    and "parseInt (pad n k) = Num (of_int n)"
proof -
  have p: "pad n k = padStart k (CHR ''0'') (digits_of (nat n))"
    using assms by (simp add: pad_def toString_def)
  show 1: "pad n k \<noteq> []"
    by (simp add: p padStart_def digits_of_not_Nil)
  show 2: "\<forall>c \<in> set (pad n k). isDigit c"
    unfolding p using padStart_isDigit digits_of_isDigit by blast
  show "parseInt (pad n k) = Num (of_int n)"
    using parseInt_digits [OF 1 2] assms
    by (simp add: p digitsValue_padStart digitsValue_digits_of)
qed

lemma parseSRTTime_fields:
  assumes "0 \<le> h" and "0 \<le> m" and "0 \<le> s" and "0 \<le> ms"
  shows "parseSRTTime (pad h 2 @ '':'' @ pad m 2 @ '':'' @ pad s 2 @ '','' @ pad ms 3) =
         Num (of_int h * 3600 + of_int m * 60 + of_int s + of_int ms / 1000)"
proof -
  note H = pad_digits [OF assms(1), of 2] and M = pad_digits [OF assms(2), of 2]
    and S = pad_digits [OF assms(3), of 2] and MS = pad_digits [OF assms(4), of 3]
  have no: "x \<notin> set (pad h 2)" "x \<notin> set (pad m 2)" "x \<notin> set (pad s 2)" "x \<notin> set (pad ms 3)"
    if "\<not> isDigit x" for x
    using that H(2) M(2) S(2) MS(2) by blast+
  have nd: "\<not> isDigit (CHR '':'')" "\<not> isDigit (CHR '','')" "\<not> isDigit (CHR ''.'')"
    by (simp_all add: isDigit_def)
  have r: "replace_first (CHR '','') (CHR ''.'')
             (pad h 2 @ '':'' @ pad m 2 @ '':'' @ pad s 2 @ '','' @ pad ms 3) =
           pad h 2 @ CHR '':'' # pad m 2 @ CHR '':'' # (pad s 2 @ CHR ''.'' # pad ms 3)"
    using replace_first_append [of "CHR '',''" "pad h 2 @ '':'' @ pad m 2 @ '':'' @ pad s 2"
        "CHR ''.''" "pad ms 3"] no(1-3) [OF nd(2)]
    by simp
  have p: "str_split (CHR '':'')
             (pad h 2 @ CHR '':'' # pad m 2 @ CHR '':'' # (pad s 2 @ CHR ''.'' # pad ms 3)) =
           [pad h 2, pad m 2, pad s 2 @ CHR ''.'' # pad ms 3]"
    by (rule str_split3) (use no [OF nd(1)] in simp_all)
  have q: "str_split (CHR ''.'') (pad s 2 @ CHR ''.'' # pad ms 3) = [pad s 2, pad ms 3]"
    by (rule str_split2) (use no [OF nd(3)] in simp_all)
  have ne: "pad h 2 @ '':'' @ pad m 2 @ '':'' @ pad s 2 @ '','' @ pad ms 3 \<noteq> []"
    by simp
  show ?thesis
    unfolding parseSRTTime_def r p q Let_def
    using ne MS(1) by (simp add: q msField_def H(3) M(3) S(3) MS(3))
qed

lemma js_rem_nonneg:
  assumes "0 \<le> x" and "0 < y"
  shows "js_rem x y = x - y * of_int \<lfloor>x / y\<rfloor>"
proof -
  have "\<not> x / y < 0" using assms by (simp add: divide_less_0_iff)
  then show ?thesis by (simp add: js_rem_def)
qed

lemma minutes_eq:
  fixes x :: rat
  shows "\<lfloor>(x - 3600 * of_int h) / 60\<rfloor> = \<lfloor>x / 60\<rfloor> - 60 * h"
proof -
  have "(x - 3600 * of_int h) / 60 = x / 60 - of_int (60 * h)"
    by (simp add: field_simps)
  then show ?thesis by (simp only: floor_diff_of_int)
qed

lemma seconds_eq:
  fixes x :: rat
  shows "\<lfloor>x - 60 * of_int a\<rfloor> = \<lfloor>x\<rfloor> - 60 * a"
proof -
  have "x - 60 * of_int a = x - of_int (60 * a)" by simp
  then show ?thesis by (simp only: floor_diff_of_int)
qed

lemma components:
  fixes x :: rat
  assumes "0 \<le> x"
  defines "h \<equiv> \<lfloor>x / 3600\<rfloor>"
    and "m \<equiv> \<lfloor>js_rem x 3600 / 60\<rfloor>"
    and "s \<equiv> \<lfloor>js_rem x 60\<rfloor>"
    and "ms \<equiv> \<lfloor>js_rem x 1 * 1000 + 1 / 2\<rfloor>"
  shows "0 \<le> h" and "0 \<le> m" and "0 \<le> s" and "0 \<le> ms"
    and "h * 3600 + m * 60 + s = \<lfloor>x\<rfloor>"
    and "\<bar>of_int ms / 1000 - (x - of_int \<lfloor>x\<rfloor>)\<bar> \<le> 1 / 2000"
proof -
  have m: "m = \<lfloor>x / 60\<rfloor> - 60 * h"
    unfolding m_def h_def using assms by (simp add: js_rem_nonneg minutes_eq)
  have s: "s = \<lfloor>x\<rfloor> - 60 * \<lfloor>x / 60\<rfloor>"
    unfolding s_def using assms by (simp add: js_rem_nonneg seconds_eq)
  have f: "js_rem x 1 = x - of_int \<lfloor>x\<rfloor>"
    using assms by (simp add: js_rem_nonneg)
  show "0 \<le> h" unfolding h_def using assms by simp
  have "of_int h \<le> x / 3600" unfolding h_def by (rule of_int_floor_le)
  then have "of_int (60 * h) \<le> x / 60" by simp
  then have "60 * h \<le> \<lfloor>x / 60\<rfloor>" by (simp only: le_floor_iff)
  then show "0 \<le> m" unfolding m by simp
  have "of_int \<lfloor>x / 60\<rfloor> \<le> x / 60" by (rule of_int_floor_le)
  then have "of_int (60 * \<lfloor>x / 60\<rfloor>) \<le> x" by simp
  then have "60 * \<lfloor>x / 60\<rfloor> \<le> \<lfloor>x\<rfloor>" by (simp only: le_floor_iff)
  then show "0 \<le> s" unfolding s by simp
  have "of_int \<lfloor>x\<rfloor> \<le> x" by (rule of_int_floor_le)
  then have "0 \<le> (x - of_int \<lfloor>x\<rfloor>) * 1000" by (intro mult_nonneg_nonneg) simp_all
  then have "0 \<le> (x - of_int \<lfloor>x\<rfloor>) * 1000 + 1 / 2" by linarith
  then show "0 \<le> ms" unfolding ms_def f by (simp only: zero_le_floor)
  show "h * 3600 + m * 60 + s = \<lfloor>x\<rfloor>" unfolding m s by simp
  define t where "t = (x - of_int \<lfloor>x\<rfloor>) * 1000"
  have "of_int \<lfloor>t + 1 / 2\<rfloor> \<le> t + 1 / 2" and "t + 1 / 2 < of_int \<lfloor>t + 1 / 2\<rfloor> + 1"
    by linarith+
  then have "\<bar>of_int \<lfloor>t + 1 / 2\<rfloor> - t\<bar> \<le> 1 / 2" by linarith
  then have "\<bar>of_int \<lfloor>t + 1 / 2\<rfloor> / 1000 - t / 1000\<bar> \<le> 1 / 2000" by linarith
  moreover have "t / 1000 = x - of_int \<lfloor>x\<rfloor>" by (simp add: t_def)
  moreover have "ms = \<lfloor>t + 1 / 2\<rfloor>" by (simp only: ms_def f t_def)
  ultimately show "\<bar>of_int ms / 1000 - (x - of_int \<lfloor>x\<rfloor>)\<bar> \<le> 1 / 2000"
    by (simp only:)
qed

text \<open>
  Claim C1. For every \<open>x\<close> from 0 to 359999.999 seconds, parsing the formatted
  timecode gives a finite number within one millisecond of \<open>x\<close>.
\<close>

theorem parse_format_roundtrip:
  assumes "0 \<le> x" and "x \<le> 359999999 / 1000"
  shows "\<exists>y. parseSRTTime (formatSRTTime x) = Num y \<and> \<bar>y - x\<bar> \<le> 1 / 1000"
proof -
  define h m s ms where "h = \<lfloor>x / 3600\<rfloor>" and "m = \<lfloor>js_rem x 3600 / 60\<rfloor>"
    and "s = \<lfloor>js_rem x 60\<rfloor>" and "ms = \<lfloor>js_rem x 1 * 1000 + 1 / 2\<rfloor>"
  note c = components [OF assms(1), folded h_def m_def s_def ms_def]
  have fmt: "formatSRTTime x =
      pad h 2 @ '':'' @ pad m 2 @ '':'' @ pad s 2 @ '','' @ pad ms 3"
    unfolding formatSRTTime_def Let_def h_def m_def s_def ms_def ..
  define y :: rat where "y = of_int h * 3600 + of_int m * 60 + of_int s + of_int ms / 1000"
  have p: "parseSRTTime (formatSRTTime x) = Num y"
    unfolding fmt y_def by (rule parseSRTTime_fields [OF c(1-4)])
  have "(of_int (h * 3600 + m * 60 + s) :: rat) = of_int \<lfloor>x\<rfloor>"
    by (simp only: c(5))
  then have "of_int h * 3600 + of_int m * 60 + of_int s = (of_int \<lfloor>x\<rfloor> :: rat)"
    by simp
  then have "y - x = of_int ms / 1000 - (x - of_int \<lfloor>x\<rfloor>)"
    unfolding y_def by simp
  with c(6) have "\<bar>y - x\<bar> \<le> 1 / 2000" by (simp only:)
  then have "\<bar>y - x\<bar> \<le> 1 / 1000" by linarith
  with p show ?thesis by blast
qed

theorem parse_format_roundtrip_witness:
  "(0::rat) \<le> 9996 / 10000 \<and> (9996 / 10000 :: rat) \<le> 359999999 / 1000 \<and>
   formatSRTTime (9996 / 10000) = ''00:00:00,1000'' \<and>
   (\<exists>y. parseSRTTime (formatSRTTime (9996 / 10000)) = Num y \<and> \<bar>y - 9996 / 10000\<bar> \<le> 1 / 1000)"
proof -
  have 1: "(0::rat) \<le> 9996 / 10000" and 2: "(9996 / 10000 :: rat) \<le> 359999999 / 1000"
    by simp_all
  have 3: "formatSRTTime (9996 / 10000) = ''00:00:00,1000''"
    by code_simp
  from parse_format_roundtrip [OF 1 2] 1 2 3 show ?thesis by blast
qed

end
